theory Spec2Isabelle
  imports Main "HOL-Library.Multiset"
begin

section \<open>Strings: the JavaScript string operations used by the service\<close>

text \<open>
  Strings are ASCII character lists. \<open>toLowerCase\<close> and \<open>toUpperCase\<close> map the
  26 Latin letters and leave every other character alone; \<open>includesStr\<close> is the
  contiguous-substring test of \<open>String.prototype.includes\<close>.
\<close>

definition lowerTable :: "(char \<times> char) list" where
  "lowerTable = zip ''ABCDEFGHIJKLMNOPQRSTUVWXYZ'' ''abcdefghijklmnopqrstuvwxyz''"

definition upperTable :: "(char \<times> char) list" where
  "upperTable = zip ''abcdefghijklmnopqrstuvwxyz'' ''ABCDEFGHIJKLMNOPQRSTUVWXYZ''"

definition lowerChar :: "char \<Rightarrow> char" where
  "lowerChar c = (case map_of lowerTable c of Some l \<Rightarrow> l | None \<Rightarrow> c)"

definition upperChar :: "char \<Rightarrow> char" where
  "upperChar c = (case map_of upperTable c of Some u \<Rightarrow> u | None \<Rightarrow> c)"

definition toLowerCase :: "string \<Rightarrow> string" where
  "toLowerCase s = map lowerChar s"

definition toUpperCase :: "string \<Rightarrow> string" where
  "toUpperCase s = map upperChar s"

fun startsWith :: "string \<Rightarrow> string \<Rightarrow> bool" where
  "startsWith s [] = True"
| "startsWith [] (k # ks) = False"
| "startsWith (c # cs) (k # ks) = (c = k \<and> startsWith cs ks)"

fun includesStr :: "string \<Rightarrow> string \<Rightarrow> bool" where
  "includesStr [] k = (k = [])"
| "includesStr (c # cs) k = (startsWith (c # cs) k \<or> includesStr cs k)"

text \<open>\<open>x || ''\<close> on an optional string: absent, null and the empty string are falsy.\<close>

definition orEmpty :: "string option \<Rightarrow> string" where
  "orEmpty d = (case d of None \<Rightarrow> [] | Some s \<Rightarrow> s)"

text \<open>Truthiness of an optional string: present and not empty.\<close>

definition truthy :: "string option \<Rightarrow> bool" where
  "truthy d = (case d of None \<Rightarrow> False | Some s \<Rightarrow> s \<noteq> [])"

section \<open>Data model\<close>

text \<open>
  The \<open>Event\<close> interface of the ANPR service. A timestamp is the instant its ISO-8601
  string denotes, in milliseconds since the epoch: the value of
  \<open>new Date(event.timestamp).getTime()\<close>, which is all the service ever reads of it.
  An optional field is an \<open>option\<close>; \<open>None\<close> stands for absent, undefined and null.
\<close>

record Event =
  id_ev :: int
  event_type :: string
  description :: "string option"
  rule_name :: "string option"
  timestamp :: int
  plate_text :: "string option"

datatype VehicleCategory = MaterialTruck | Machinery | Staff | Unknown

datatype Direction = Entry | Exit

text \<open>
  \<open>decision\<close> and \<open>eventType\<close> both hold \<open>event.event_type\<close>, a string the service
  casts without checking, so they stay strings here.
\<close>

record ConstructionSiteEvent =
  id_c :: int
  plateNumber :: string
  vehicleCategory :: VehicleCategory
  direction :: Direction
  gateName :: string
  timestamp_c :: int
  decision :: string
  eventType :: string
  description_c :: "string option"
  ruleName :: "string option"

datatype AlertType = UnauthorizedExit | NoMatchingEntry | AfterHoursExit

record MaterialTheftAlert =
  id_a :: int
  plateNumber_a :: string
  alertType :: AlertType
  message :: string
  timestamp_a :: int
  description_a :: "string option"

text \<open>
  JavaScript numbers are IEEE doubles. The timestamps, their differences and the counts
  are integers far below \<open>2^53\<close>, where doubles are exact, and are integers here. The
  durations in minutes and their average are not: a division and a sum of doubles
  round. The type \<open>'n\<close> of those numbers and the three operations the service
  applies to them are parameters of the model: \<open>numOf\<close> reads an integer as a number,
  \<open>numAdd\<close> is \<open>+\<close> and \<open>numDiv\<close> is \<open>/\<close>.
\<close>

record 'n numberOps =
  numOf :: "int \<Rightarrow> 'n"
  numAdd :: "'n \<Rightarrow> 'n \<Rightarrow> 'n"
  numDiv :: "'n \<Rightarrow> 'n \<Rightarrow> 'n"

record 'n VendorAnalytics =
  vendorName :: string
  deliveriesToday :: nat
  averageDuration :: "'n option"
  suspiciousExits :: nat
  lastDeliveryTime :: "int option"

text \<open>The value type of the \<open>vehicleEntries\<close> map.\<close>

record VehicleState =
  firstSeen :: int
  lastSeen :: int
  entryCount :: nat
  exitCount :: nat

section \<open>Classification helpers\<close>

definition hasExitKeyword :: "string \<Rightarrow> bool" where
  "hasExitKeyword desc =
     (includesStr desc ''exit'' \<or> includesStr desc ''departure'' \<or> includesStr desc ''leaving'')"

definition hasEntryKeyword :: "string \<Rightarrow> bool" where
  "hasEntryKeyword desc =
     (includesStr desc ''entry'' \<or> includesStr desc ''arrival'' \<or> includesStr desc ''entering'')"

text \<open>\<open>determineVehicleCategory\<close>: the plate is upper-cased and then never read.\<close>

definition determineVehicleCategory :: "string \<Rightarrow> string option \<Rightarrow> VehicleCategory" where
  "determineVehicleCategory plate dsc =
     (let desc = toLowerCase (orEmpty dsc) in
      if includesStr desc ''truck'' \<or> includesStr desc ''material'' \<or> includesStr desc ''delivery''
        then MaterialTruck
      else if includesStr desc ''machinery'' \<or> includesStr desc ''excavator'' \<or> includesStr desc ''crane''
        then Machinery
      else if includesStr desc ''staff'' \<or> includesStr desc ''employee'' \<or> includesStr desc ''personnel''
        then Staff
      else MaterialTruck)"

text \<open>
  The regular expression \<open>/gate\s*([a-z0-9]+)/i\<close> of \<open>determineGateName\<close>: the leftmost
  position where \<open>gate\<close> (any case) is followed by white space and then at least one
  letter or digit; the captured group is the longest run of letters and digits there.
  White space and alphanumerics are disjoint, so backtracking finds nothing more.
\<close>

definition isSpace :: "char \<Rightarrow> bool" where
  "isSpace c = (c \<in> set [CHR '' '', CHR 0x09, CHR 0x0A, CHR 0x0B, CHR 0x0C, CHR 0x0D])"

definition isAlnum :: "char \<Rightarrow> bool" where
  "isAlnum c = (lowerChar c \<in> set ''abcdefghijklmnopqrstuvwxyz0123456789'')"

fun gateMatch :: "string \<Rightarrow> string option" where
  "gateMatch [] = None"
| "gateMatch (c # cs) =
     (if startsWith (toLowerCase (c # cs)) ''gate''
         \<and> takeWhile isAlnum (dropWhile isSpace (drop 4 (c # cs))) \<noteq> []
      then Some (takeWhile isAlnum (dropWhile isSpace (drop 4 (c # cs))))
      else gateMatch cs)"

definition determineGateName :: "string option \<Rightarrow> string option \<Rightarrow> string" where
  "determineGateName rn dsc =
     (if truthy rn then
        (if includesStr (toLowerCase (orEmpty rn)) ''gate'' then orEmpty rn
         else ''Gate '' @ orEmpty rn)
      else if truthy dsc then
        (case gateMatch (orEmpty dsc) of Some g \<Rightarrow> ''Gate '' @ g | None \<Rightarrow> ''Main Gate'')
      else ''Main Gate'')"

section \<open>transformToConstructionSiteEvents\<close>

text \<open>\<open>event.plate_text || 'UNKNOWN'\<close>.\<close>

definition plateOf :: "Event \<Rightarrow> string" where
  "plateOf e = (if truthy (plate_text e) then orEmpty (plate_text e) else ''UNKNOWN'')"

text \<open>The two early returns at the head of the loop body.\<close>

definition skipped :: "Event \<Rightarrow> bool" where
  "skipped e =
     (plateOf e = ''UNKNOWN''
      \<or> determineGateName (rule_name e) (description e) = ''Gate invalid_plate_format''
      \<or> rule_name e = Some ''invalid_plate_format'')"

definition twoHours :: int where
  "twoHours = 2 * 60 * 60 * 1000"

definition thirtyMinutes :: int where
  "thirtyMinutes = 30 * 60 * 1000"

definition dayMs :: int where
  "dayMs = 24 * 60 * 60 * 1000"

text \<open>
  The six strategies for an ALLOW event, on the state of its plate: the direction and the
  state with its counters (and \<open>firstSeen\<close>, for strategy 2) updated.
\<close>

definition strategies :: "VehicleState \<Rightarrow> Event \<Rightarrow> Direction \<times> VehicleState" where
  "strategies vs e =
     (let eventTime = timestamp e;
          timeSinceLastSeen = eventTime - lastSeen vs;
          timeSinceFirstSeen = eventTime - firstSeen vs
      in
      if entryCount vs = 0 \<and> exitCount vs = 0 then
        (Entry, vs\<lparr>entryCount := entryCount vs + 1\<rparr>)
      else if timeSinceLastSeen > twoHours then
        (Entry, vs\<lparr>entryCount := entryCount vs + 1, firstSeen := eventTime\<rparr>)
      else if entryCount vs > exitCount vs then
        (Exit, vs\<lparr>exitCount := exitCount vs + 1\<rparr>)
      else
        (let desc = toLowerCase (orEmpty (description e)) in
         if hasExitKeyword desc then (Exit, vs\<lparr>exitCount := exitCount vs + 1\<rparr>)
         else if hasEntryKeyword desc then (Entry, vs\<lparr>entryCount := entryCount vs + 1\<rparr>)
         else if timeSinceFirstSeen < thirtyMinutes then
           (Entry, vs\<lparr>entryCount := entryCount vs + 1\<rparr>)
         else (Entry, vs\<lparr>entryCount := entryCount vs + 1\<rparr>)))"

text \<open>The direction of a non-ALLOW event.\<close>

definition otherDirection :: "Event \<Rightarrow> Direction" where
  "otherDirection e =
     (if event_type e = ''ALERT'' then
        (let desc = toLowerCase (orEmpty (description e)) in
         if hasExitKeyword desc then Exit
         else if hasEntryKeyword desc then Entry
         else Exit)
      else Entry)"

definition mkEvent :: "Event \<Rightarrow> Direction \<Rightarrow> ConstructionSiteEvent" where
  "mkEvent e d =
     \<lparr> id_c = id_ev e,
       plateNumber = plateOf e,
       vehicleCategory = determineVehicleCategory (plateOf e) (description e),
       direction = d,
       gateName = determineGateName (rule_name e) (description e),
       timestamp_c = timestamp e,
       decision = event_type e,
       eventType = event_type e,
       description_c = description e,
       ruleName = rule_name e \<rparr>"

type_synonym tracker = "(string \<rightharpoonup> VehicleState) \<times> ConstructionSiteEvent list"

text \<open>
  One run of the \<open>forEach\<close> body: the \<open>vehicleEntries\<close> map and the \<open>result\<close> array
  before the event, and after it.
\<close>

definition processEvent :: "tracker \<Rightarrow> Event \<Rightarrow> tracker" where
  "processEvent st e =
     (let vehicleEntries = fst st; result = snd st; plate = plateOf e in
      if skipped e then st
      else if event_type e = ''ALLOW'' then
        (let vs0 = (case vehicleEntries plate of
                      None \<Rightarrow> \<lparr> firstSeen = timestamp e, lastSeen = timestamp e,
                                entryCount = 0, exitCount = 0 \<rparr>
                    | Some vs \<Rightarrow> vs);
             (d, vs1) = strategies vs0 e;
             vs2 = vs1\<lparr>lastSeen := timestamp e\<rparr>
         in (vehicleEntries(plate \<mapsto> vs2), result @ [mkEvent e d]))
      else (vehicleEntries, result @ [mkEvent e (otherDirection e)]))"

definition sortedEvents :: "Event list \<Rightarrow> Event list" where
  "sortedEvents events = sort_key timestamp events"

definition runTracker :: "Event list \<Rightarrow> tracker" where
  "runTracker events = foldl processEvent (Map.empty, []) (sortedEvents events)"

definition transformToConstructionSiteEvents :: "Event list \<Rightarrow> ConstructionSiteEvent list" where
  "transformToConstructionSiteEvents events =
     sort_key (\<lambda>r. - timestamp_c r) (snd (runTracker events))"

section \<open>identifyTheftAlerts\<close>

text \<open>
  A JavaScript \<open>Map\<close> from strings to arrays, filled by \<open>has\<close>/\<open>set\<close>/\<open>get(...).push\<close>:
  an association list in the order the keys were first set, which is the order
  \<open>Map.prototype.forEach\<close> visits them in.
\<close>

fun pushTo :: "string \<Rightarrow> 'a \<Rightarrow> (string \<times> 'a list) list \<Rightarrow> (string \<times> 'a list) list" where
  "pushTo k v [] = [(k, [v])]"
| "pushTo k v ((k', vs) # rest) =
     (if k = k' then (k', vs @ [v]) # rest else (k', vs) # pushTo k v rest)"

definition groupByPlate ::
  "ConstructionSiteEvent list \<Rightarrow> (string \<times> ConstructionSiteEvent list) list" where
  "groupByPlate events = foldl (\<lambda>m event. pushTo (plateNumber event) event m) [] events"

definition hasMatchingEntry ::
  "ConstructionSiteEvent list \<Rightarrow> ConstructionSiteEvent \<Rightarrow> bool" where
  "hasMatchingEntry entries exitEvent =
     list_ex (\<lambda>entry. timestamp_c entry < timestamp_c exitEvent
                      \<and> timestamp_c exitEvent - timestamp_c entry < dayMs) entries"

definition mkAlert ::
  "string \<Rightarrow> AlertType \<Rightarrow> string \<Rightarrow> ConstructionSiteEvent \<Rightarrow> MaterialTheftAlert" where
  "mkAlert plate ty msg exitEvent =
     \<lparr> id_a = id_c exitEvent,
       plateNumber_a = plate,
       alertType = ty,
       message = msg,
       timestamp_a = timestamp_c exitEvent,
       description_a = description_c exitEvent \<rparr>"

text \<open>
  The alerts of one plate. \<open>getHours\<close> is \<open>Date.prototype.getHours\<close> on an instant: the
  hour of the day in the time zone the service runs in, a parameter of the model.
\<close>

definition plateAlerts ::
  "(int \<Rightarrow> int) \<Rightarrow> string \<times> ConstructionSiteEvent list \<Rightarrow> MaterialTheftAlert list" where
  "plateAlerts getHours pe =
     (let plate = fst pe; plateEvents = snd pe;
          exits = filter (\<lambda>e. direction e = Exit \<and> decision e = ''ALERT'') plateEvents;
          entries = filter (\<lambda>e. direction e = Entry) plateEvents
      in
        map (mkAlert plate UnauthorizedExit ''Unauthorized material movement detected'') exits
      @ map (mkAlert plate NoMatchingEntry ''Vehicle exited without recorded entry'')
          (filter (\<lambda>exitEvent. \<not> hasMatchingEntry entries exitEvent) exits)
      @ map (mkAlert plate AfterHoursExit ''Material movement detected outside working hours'')
          (filter (\<lambda>exitEvent. getHours (timestamp_c exitEvent) < 6
                                 \<or> getHours (timestamp_c exitEvent) \<ge> 20) exits))"

definition identifyTheftAlerts ::
  "(int \<Rightarrow> int) \<Rightarrow> ConstructionSiteEvent list \<Rightarrow> MaterialTheftAlert list" where
  "identifyTheftAlerts getHours events =
     sort_key (\<lambda>a. - timestamp_a a)
       (concat (map (plateAlerts getHours) (groupByPlate events)))"

section \<open>calculateVendorAnalytics\<close>

definition stateCodes :: "(string \<times> string) list" where
  "stateCodes =
     [(''MH'', ''Maharashtra''), (''DL'', ''Delhi''), (''KA'', ''Karnataka''),
      (''TN'', ''Tamil Nadu''), (''GJ'', ''Gujarat''), (''RJ'', ''Rajasthan''),
      (''UP'', ''Uttar Pradesh''), (''WB'', ''West Bengal''), (''MP'', ''Madhya Pradesh''),
      (''AP'', ''Andhra Pradesh''), (''TS'', ''Telangana''), (''KL'', ''Kerala''),
      (''HR'', ''Haryana''), (''PB'', ''Punjab''), (''OR'', ''Odisha''), (''BR'', ''Bihar''),
      (''AS'', ''Assam''), (''JH'', ''Jharkhand''), (''UT'', ''Uttarakhand''),
      (''HP'', ''Himachal Pradesh'')]"

definition getVendorName :: "string \<Rightarrow> string" where
  "getVendorName plate =
     (if length plate \<ge> 2 then
        (let stateCode = toUpperCase (take 2 plate) in
         case map_of stateCodes stateCode of
           Some name \<Rightarrow> name
         | None \<Rightarrow> ''Vendor '' @ stateCode)
      else ''Unknown Vendor'')"

type_synonym vendorData = "ConstructionSiteEvent list \<times> ConstructionSiteEvent list"

text \<open>\<open>vendorMap\<close>: per vendor its \<open>entries\<close> (first) and \<open>exits\<close> (second), in key order.\<close>

fun vendorPush ::
  "string \<Rightarrow> ConstructionSiteEvent \<Rightarrow> (string \<times> vendorData) list \<Rightarrow> (string \<times> vendorData) list" where
  "vendorPush k event [] =
     [(k, if direction event = Entry then ([event], []) else ([], [event]))]"
| "vendorPush k event ((k', (entries, exits)) # rest) =
     (if k = k' then
        (k', if direction event = Entry then (entries @ [event], exits)
             else (entries, exits @ [event])) # rest
      else (k', (entries, exits)) # vendorPush k event rest)"

definition vendorStep ::
  "(string \<times> vendorData) list \<Rightarrow> ConstructionSiteEvent \<Rightarrow> (string \<times> vendorData) list" where
  "vendorStep m event =
     (if decision event \<noteq> ''ALLOW'' then m
      else vendorPush (getVendorName (plateNumber event)) event m)"

definition vendorMap :: "ConstructionSiteEvent list \<Rightarrow> (string \<times> vendorData) list" where
  "vendorMap events = foldl vendorStep [] events"

text \<open>\<open>vendorData.exits.find(...)\<close>: the first exit, in array order, inside the window.\<close>

definition matchingExit ::
  "ConstructionSiteEvent list \<Rightarrow> ConstructionSiteEvent \<Rightarrow> ConstructionSiteEvent option" where
  "matchingExit exits entry =
     find (\<lambda>exit. timestamp_c exit > timestamp_c entry
                  \<and> timestamp_c exit - timestamp_c entry < dayMs) exits"

text \<open>
  The matched durations in minutes, in the order of the entries: the difference of the two
  timestamps, an integer, divided by \<open>1000 * 60\<close> as a number.
\<close>

definition durationsOf ::
  "'n numberOps \<Rightarrow> ConstructionSiteEvent list \<Rightarrow> ConstructionSiteEvent list \<Rightarrow> 'n list" where
  "durationsOf ops entries exits =
     concat (map (\<lambda>entry. case matchingExit exits entry of
                             None \<Rightarrow> []
                           | Some x \<Rightarrow> [numDiv ops (numOf ops (timestamp_c x - timestamp_c entry))
                                                    (numOf ops (1000 * 60))])
                 entries)"

text \<open>\<open>durations.reduce((a, b) => a + b, 0) / durations.length\<close>, or undefined.\<close>

definition averageOf :: "'n numberOps \<Rightarrow> 'n list \<Rightarrow> 'n option" where
  "averageOf ops durations =
     (if length durations > 0
      then Some (numDiv ops (foldl (numAdd ops) (numOf ops 0) durations)
                            (numOf ops (int (length durations))))
      else None)"

text \<open>
  The analytics of one vendor. \<open>startOfDay\<close> is \<open>setHours(0, 0, 0, 0)\<close> followed by
  \<open>getTime()\<close>, the local midnight before an instant, and \<open>now\<close> is \<open>new Date()\<close>: both
  are parameters of the model.
\<close>

definition vendorAnalyticsOf ::
  "'n numberOps \<Rightarrow> (int \<Rightarrow> int) \<Rightarrow> int \<Rightarrow> string \<times> vendorData \<Rightarrow> 'n VendorAnalytics" where
  "vendorAnalyticsOf ops startOfDay now vd =
     (let name = fst vd; entries = fst (snd vd); exits = snd (snd vd);
          today = startOfDay now
      in \<lparr> vendorName = name,
           deliveriesToday =
             length (filter (\<lambda>entry. startOfDay (timestamp_c entry) = today) entries),
           averageDuration = averageOf ops (durationsOf ops entries exits),
           suspiciousExits = length (filter (\<lambda>exit. decision exit = ''ALERT'') exits),
           lastDeliveryTime =
             (case sort_key (\<lambda>e. - timestamp_c e) entries of
                [] \<Rightarrow> None
              | lastEntry # _ \<Rightarrow> Some (timestamp_c lastEntry)) \<rparr>)"

definition calculateVendorAnalytics ::
  "'n numberOps \<Rightarrow> (int \<Rightarrow> int) \<Rightarrow> int \<Rightarrow> ConstructionSiteEvent list
     \<Rightarrow> 'n VendorAnalytics list" where
  "calculateVendorAnalytics ops startOfDay now events =
     sort_key (\<lambda>a. - int (deliveriesToday a))
       (map (vendorAnalyticsOf ops startOfDay now) (vendorMap events))"

text \<open>The hour of the day and the start of the day in UTC, one choice of time zone.\<close>

definition utcHours :: "int \<Rightarrow> int" where
  "utcHours t = (t div 3600000) mod 24"

definition utcStartOfDay :: "int \<Rightarrow> int" where
  "utcStartOfDay t = t - t mod 86400000"

section \<open>Predicates used in the statements and invariants\<close>

text \<open>
  The events of a plate that the tracker keeps state for: not skipped, ALLOW, and of
  that plate. \<open>allowedOf\<close> selects the classified records they produce.
\<close>

definition tracked :: "string \<Rightarrow> Event \<Rightarrow> bool" where
  "tracked p e = (\<not> skipped e \<and> event_type e = ''ALLOW'' \<and> plateOf e = p)"

definition allowedOf :: "string \<Rightarrow> ConstructionSiteEvent \<Rightarrow> bool" where
  "allowedOf p r = (plateNumber r = p \<and> decision r = ''ALLOW'')"

text \<open>The groups of a list by a key: the invariant of the \<open>pushTo\<close> loop.\<close>

definition groupsOf :: "('a \<Rightarrow> string) \<Rightarrow> 'a list \<Rightarrow> (string \<times> 'a list) list \<Rightarrow> bool" where
  "groupsOf key xs m =
     (distinct (map fst m)
      \<and> set (map fst m) = key ` set xs
      \<and> (\<forall>g \<in> set m. snd g = filter (\<lambda>x. key x = fst g) xs))"

text \<open>Every record held in the vendor map is an ALLOW record.\<close>

definition allowOnly :: "(string \<times> vendorData) list \<Rightarrow> bool" where
  "allowOnly m =
     (\<forall>vd \<in> set m. \<forall>x \<in> set (fst (snd vd)) \<union> set (snd (snd vd)). decision x = ''ALLOW'')"

section \<open>The specification's words\<close>

text \<open>
  The records the specification says are dropped: the plate is the sentinel, the rule
  name is the invalid-format marker, or the derived gate label is the placeholder.
\<close>

definition spec_dropped :: "Event \<Rightarrow> bool" where
  "spec_dropped e =
     (plate_text e = Some ''UNKNOWN''
      \<or> rule_name e = Some ''invalid_plate_format''
      \<or> determineGateName (rule_name e) (description e) = ''Gate invalid_plate_format'')"

text \<open>
  The exits the specification says raise a No Matching Entry alert: an Exit record with
  decision ALERT and no Entry record of the same plate, of any decision, before it and
  less than 24 hours away.
\<close>

definition spec_unmatchedExit :: "ConstructionSiteEvent list \<Rightarrow> ConstructionSiteEvent \<Rightarrow> bool" where
  "spec_unmatchedExit events e =
     (direction e = Exit \<and> decision e = ''ALERT''
      \<and> \<not> (\<exists>entry \<in> set events.
              plateNumber entry = plateNumber e \<and> direction entry = Entry
              \<and> timestamp_c entry < timestamp_c e
              \<and> timestamp_c e - timestamp_c entry < dayMs))"

text \<open>
  Duration matching as the specification words it: the earliest exit of the group
  later than the entry and less than 24 hours after it.
\<close>

definition spec_earliestExit ::
  "ConstructionSiteEvent list \<Rightarrow> ConstructionSiteEvent \<Rightarrow> ConstructionSiteEvent option" where
  "spec_earliestExit exits entry =
     (case filter (\<lambda>exit. timestamp_c exit > timestamp_c entry
                          \<and> timestamp_c exit - timestamp_c entry < dayMs) exits of
        [] \<Rightarrow> None
      | c # cs \<Rightarrow> Some (arg_min_list timestamp_c (c # cs)))"

section \<open>Lemmas\<close>

subsection \<open>The tracker\<close>

lemma processEvent_skipped: "skipped e \<Longrightarrow> processEvent st e = st"
  by (simp add: processEvent_def)

lemma foldl_processEvent_filter:
  "(\<And>e. D e \<Longrightarrow> skipped e) \<Longrightarrow>
   foldl processEvent st (filter (\<lambda>e. \<not> D e) es) = foldl processEvent st es"
  by (induction es arbitrary: st) (simp_all add: processEvent_skipped)

lemma runTracker_filter:
  assumes "\<And>e. D e \<Longrightarrow> skipped e"
  shows "runTracker (filter (\<lambda>e. \<not> D e) events) = runTracker events"
proof -
  have "sortedEvents (filter (\<lambda>e. \<not> D e) events) = filter (\<lambda>e. \<not> D e) (sortedEvents events)"
    by (simp add: sortedEvents_def filter_sort)
  then show ?thesis
    using assms by (simp add: runTracker_def foldl_processEvent_filter)
qed

lemma transform_filter:
  assumes "\<And>e. D e \<Longrightarrow> skipped e"
  shows "transformToConstructionSiteEvents (filter (\<lambda>e. \<not> D e) events)
         = transformToConstructionSiteEvents events"
  using runTracker_filter [OF assms] by (simp add: transformToConstructionSiteEvents_def)

lemma processEvent_result_cases:
  "snd (processEvent st e) = snd st
   \<or> (\<not> skipped e \<and> event_type e = ''ALLOW'' \<and> (\<exists>d. snd (processEvent st e) = snd st @ [mkEvent e d]))
   \<or> (\<not> skipped e \<and> event_type e \<noteq> ''ALLOW''
        \<and> snd (processEvent st e) = snd st @ [mkEvent e (otherDirection e)])"
  by (auto simp: processEvent_def Let_def split: prod.splits)

lemma foldl_processEvent_result:
  "r \<in> set (snd (foldl processEvent st es)) \<Longrightarrow>
   r \<in> set (snd st)
   \<or> (\<exists>e\<in>set es. \<not> skipped e \<and>
         (if event_type e = ''ALLOW'' then (\<exists>d. r = mkEvent e d)
          else r = mkEvent e (otherDirection e)))"
proof (induction es arbitrary: st)
  case Nil
  then show ?case by simp
next
  case (Cons e es)
  from Cons.IH [of "processEvent st e"] Cons.prems
  have "r \<in> set (snd (processEvent st e))
     \<or> (\<exists>e\<in>set es. \<not> skipped e \<and>
         (if event_type e = ''ALLOW'' then (\<exists>d. r = mkEvent e d)
          else r = mkEvent e (otherDirection e)))"
    by simp
  then show ?case
  proof
    assume "r \<in> set (snd (processEvent st e))"
    with processEvent_result_cases [of st e] show ?thesis
      by (elim disjE conjE exE) auto
  next
    assume "\<exists>e\<in>set es. \<not> skipped e \<and>
         (if event_type e = ''ALLOW'' then (\<exists>d. r = mkEvent e d)
          else r = mkEvent e (otherDirection e))"
    then show ?thesis by auto
  qed
qed

lemma transform_result:
  assumes "r \<in> set (transformToConstructionSiteEvents events)"
  shows "\<exists>e\<in>set events. \<not> skipped e \<and>
         (if event_type e = ''ALLOW'' then (\<exists>d. r = mkEvent e d)
          else r = mkEvent e (otherDirection e))"
proof -
  from assms have "r \<in> set (snd (foldl processEvent (Map.empty, []) (sortedEvents events)))"
    by (simp add: transformToConstructionSiteEvents_def runTracker_def)
  from foldl_processEvent_result [OF this] show ?thesis
    by (simp add: sortedEvents_def)
qed

lemma mkEvent_simps:
  "id_c (mkEvent e d) = id_ev e"
  "plateNumber (mkEvent e d) = plateOf e"
  "vehicleCategory (mkEvent e d) = determineVehicleCategory (plateOf e) (description e)"
  "direction (mkEvent e d) = d"
  "gateName (mkEvent e d) = determineGateName (rule_name e) (description e)"
  "timestamp_c (mkEvent e d) = timestamp e"
  "decision (mkEvent e d) = event_type e"
  "eventType (mkEvent e d) = event_type e"
  "description_c (mkEvent e d) = description e"
  "ruleName (mkEvent e d) = rule_name e"
  by (simp_all add: mkEvent_def)

lemma spec_dropped_skipped: "spec_dropped e \<Longrightarrow> skipped e"
  by (auto simp: spec_dropped_def skipped_def plateOf_def truthy_def orEmpty_def)

lemma transform_kept:
  assumes "r \<in> set (transformToConstructionSiteEvents events)"
  shows "plateNumber r \<noteq> ''UNKNOWN'' \<and> ruleName r \<noteq> Some ''invalid_plate_format''
         \<and> gateName r \<noteq> ''Gate invalid_plate_format''"
proof -
  from transform_result [OF assms] obtain e d where "\<not> skipped e" "r = mkEvent e d"
    by (auto split: if_splits)
  then show ?thesis
    by (simp add: mkEvent_simps skipped_def)
qed

lemma transform_remove1:
  assumes "skipped e"
  shows "transformToConstructionSiteEvents (xs @ e # ys) = transformToConstructionSiteEvents (xs @ ys)"
proof -
  have s: "\<And>x. x = e \<Longrightarrow> skipped x" using assms by simp
  have f: "filter (\<lambda>x. \<not> x = e) (xs @ e # ys) = filter (\<lambda>x. \<not> x = e) (xs @ ys)"
    by simp
  have "transformToConstructionSiteEvents (xs @ e # ys)
        = transformToConstructionSiteEvents (filter (\<lambda>x. \<not> x = e) (xs @ e # ys))"
    by (rule transform_filter [of "\<lambda>x. x = e", OF s, symmetric])
  also have "\<dots> = transformToConstructionSiteEvents (filter (\<lambda>x. \<not> x = e) (xs @ ys))"
    by (simp only: f)
  also have "\<dots> = transformToConstructionSiteEvents (xs @ ys)"
    by (rule transform_filter [of "\<lambda>x. x = e", OF s])
  finally show ?thesis .
qed

subsection \<open>The tracker, plate by plate\<close>

lemma processEvent_tracked:
  assumes "tracked p e" "fst st p = fst st' p"
  shows "fst (processEvent st e) p = fst (processEvent st' e) p
       \<and> (\<exists>d. snd (processEvent st e) = snd st @ [mkEvent e d]
              \<and> snd (processEvent st' e) = snd st' @ [mkEvent e d])"
  using assms by (auto simp: processEvent_def tracked_def Let_def split: prod.splits)

lemma allowedOf_mkEvent: "allowedOf p (mkEvent e d) = (event_type e = ''ALLOW'' \<and> plateOf e = p)"
  by (auto simp: allowedOf_def mkEvent_def)

lemma processEvent_untracked:
  assumes "\<not> tracked p e"
  shows "fst (processEvent st e) p = fst st p
       \<and> filter (allowedOf p) (snd (processEvent st e)) = filter (allowedOf p) (snd st)"
  using assms
  by (auto simp: processEvent_def tracked_def Let_def allowedOf_mkEvent split: prod.splits)

text \<open>
  The state of a plate and its ALLOW records depend on the tracked events of that plate
  alone: every other event can be left out of the run.
\<close>

lemma tracker_local:
  assumes "fst st p = fst st' p"
      and "filter (allowedOf p) (snd st) = filter (allowedOf p) (snd st')"
  shows "fst (foldl processEvent st es) p
           = fst (foldl processEvent st' (filter (tracked p) es)) p
       \<and> filter (allowedOf p) (snd (foldl processEvent st es))
           = filter (allowedOf p) (snd (foldl processEvent st' (filter (tracked p) es)))"
  using assms
proof (induction es arbitrary: st st')
  case Nil
  then show ?case by simp
next
  case (Cons e es)
  show ?case
  proof (cases "tracked p e")
    case True
    from processEvent_tracked [OF True Cons.prems(1)] obtain d where
      m: "fst (processEvent st e) p = fst (processEvent st' e) p"
      and r: "snd (processEvent st e) = snd st @ [mkEvent e d]"
             "snd (processEvent st' e) = snd st' @ [mkEvent e d]"
      by blast
    from r Cons.prems(2)
    have "filter (allowedOf p) (snd (processEvent st e))
          = filter (allowedOf p) (snd (processEvent st' e))"
      by simp
    from Cons.IH [OF m this] True show ?thesis by simp
  next
    case False
    from processEvent_untracked [OF False, of st] Cons.prems
    have "fst (processEvent st e) p = fst st' p"
         "filter (allowedOf p) (snd (processEvent st e)) = filter (allowedOf p) (snd st')"
      by simp_all
    from Cons.IH [OF this] False show ?thesis by simp
  qed
qed

lemma sort_three:
  fixes f :: "'a \<Rightarrow> int"
  assumes "mset xs = {#a, b, c#}" "f a < f b" "f b < f c"
  shows "sort_key f xs = [a, b, c]"
proof (rule properties_for_sort_key)
  show "mset [a, b, c] = mset xs" using assms(1) by simp
  show "sorted (map f [a, b, c])" using assms(2,3) by simp
  fix k assume k: "k \<in> set [a, b, c]"
  have "mset (filter (\<lambda>x. f k = f x) xs) = mset (filter (\<lambda>x. f k = f x) [a, b, c])"
    using assms(1) by simp
  moreover have "\<exists>y. filter (\<lambda>x. f k = f x) [a, b, c] = [y]"
    using k assms(2,3) by auto
  ultimately show "filter (\<lambda>x. f k = f x) [a, b, c] = filter (\<lambda>x. f k = f x) xs"
    by (metis mset_single_iff_right mset.simps(1) mset.simps(2) mset_eq_setD single_eq_single
        mset_zero_iff add_mset_eq_single)
qed

text \<open>The run over three tracked events ten minutes and three hours after the first.\<close>

lemma run_three:
  assumes t: "tracked p e1" "tracked p e2" "tracked p e3"
      and ts: "timestamp e2 = timestamp e1 + 10 * 60 * 1000"
              "timestamp e3 = timestamp e1 + 3 * 60 * 60 * 1000"
  shows "foldl processEvent (Map.empty, []) [e1, e2, e3]
         = ([p \<mapsto> \<lparr> firstSeen = timestamp e3, lastSeen = timestamp e3,
                      entryCount = 2, exitCount = 1 \<rparr>],
            [mkEvent e1 Entry, mkEvent e2 Exit, mkEvent e3 Entry])"
proof -
  from t have k: "\<not> skipped e1" "\<not> skipped e2" "\<not> skipped e3"
    and a: "event_type e1 = ''ALLOW''" "event_type e2 = ''ALLOW''" "event_type e3 = ''ALLOW''"
    and p: "plateOf e1 = p" "plateOf e2 = p" "plateOf e3 = p"
    by (simp_all add: tracked_def)
  let ?s1 = "\<lparr> firstSeen = timestamp e1, lastSeen = timestamp e1,
               entryCount = Suc 0, exitCount = 0 \<rparr>"
  let ?s2 = "\<lparr> firstSeen = timestamp e1, lastSeen = timestamp e2,
               entryCount = Suc 0, exitCount = Suc 0 \<rparr>"
  have 1: "processEvent (Map.empty, []) e1 = ([p \<mapsto> ?s1], [mkEvent e1 Entry])"
    using k(1) a(1) p(1) by (simp add: processEvent_def strategies_def Let_def)
  have 2: "processEvent ([p \<mapsto> ?s1], [mkEvent e1 Entry]) e2
           = ([p \<mapsto> ?s2], [mkEvent e1 Entry, mkEvent e2 Exit])"
    using k(2) a(2) p(2) ts(1) by (simp add: processEvent_def strategies_def twoHours_def Let_def)
  have 3: "processEvent ([p \<mapsto> ?s2], [mkEvent e1 Entry, mkEvent e2 Exit]) e3
           = ([p \<mapsto> \<lparr> firstSeen = timestamp e3, lastSeen = timestamp e3,
                        entryCount = 2, exitCount = 1 \<rparr>],
              [mkEvent e1 Entry, mkEvent e2 Exit, mkEvent e3 Entry])"
    using k(3) a(3) p(3) ts by (simp add: processEvent_def strategies_def twoHours_def Let_def numeral_2_eq_2)
  show ?thesis by (simp add: 1 2 3)
qed

subsection \<open>Grouping by key\<close>

lemma pushTo_keys:
  "map fst (pushTo k v m) = (if k \<in> set (map fst m) then map fst m else map fst m @ [k])"
  by (induction k v m rule: pushTo.induct) auto

lemma pushTo_set:
  "distinct (map fst m) \<Longrightarrow>
   set (pushTo k v m) =
     (if k \<in> set (map fst m)
      then (\<lambda>g. if fst g = k then (k, snd g @ [v]) else g) ` set m
      else insert (k, [v]) (set m))"
proof (induction k v m rule: pushTo.induct)
  case (1 k v)
  then show ?case by simp
next
  case (2 k v k' vs rest)
  then show ?case by (auto simp: image_iff)
qed

lemma groupsOf_pushTo:
  assumes "groupsOf key xs m"
  shows "groupsOf key (xs @ [x]) (pushTo (key x) x m)"
proof -
  from assms have d: "distinct (map fst m)"
    and k: "set (map fst m) = key ` set xs"
    and g: "\<forall>g \<in> set m. snd g = filter (\<lambda>y. key y = fst g) xs"
    by (simp_all add: groupsOf_def)
  have 1: "distinct (map fst (pushTo (key x) x m))"
    using d by (simp add: pushTo_keys)
  have 2: "set (map fst (pushTo (key x) x m)) = key ` set (xs @ [x])"
    using k by (auto simp: pushTo_keys)
  have 3: "\<forall>g \<in> set (pushTo (key x) x m). snd g = filter (\<lambda>y. key y = fst g) (xs @ [x])"
  proof (cases "key x \<in> set (map fst m)")
    case True
    then show ?thesis using g d by (auto simp: pushTo_set)
  next
    case False
    with k have "key x \<notin> key ` set xs" by simp
    then have "\<forall>y \<in> set xs. key y \<noteq> key x" by (metis imageI)
    then have "filter (\<lambda>y. key y = key x) xs = []"
      by (simp add: filter_empty_conv)
    with False show ?thesis using g d by (auto simp: pushTo_set)
  qed
  from 1 2 3 show ?thesis unfolding groupsOf_def by blast
qed

lemma groupsOf_foldl:
  "groupsOf key xs (foldl (\<lambda>m x. pushTo (key x) x m) [] xs)"
proof (induction xs rule: rev_induct)
  case Nil
  then show ?case by (simp add: groupsOf_def)
next
  case (snoc x xs)
  then show ?case by (simp add: groupsOf_pushTo)
qed

lemma groupsOf_groupByPlate: "groupsOf plateNumber events (groupByPlate events)"
  unfolding groupByPlate_def by (rule groupsOf_foldl)

lemma sum_list_single_key:
  "distinct ks \<Longrightarrow>
   (\<Sum>k\<leftarrow>ks. if a = k then {#x#} else {#}) = (if a \<in> set ks then {#x#} else {#})"
  by (induction ks) auto

lemma partition_by_keys:
  assumes "distinct ks" "key ` set xs \<subseteq> set ks"
  shows "(\<Sum>k\<leftarrow>ks. mset (filter (\<lambda>x. key x = k) xs)) = mset xs"
  using assms(2)
proof (induction xs)
  case Nil
  then show ?case by (simp add: sum_list_0)
next
  case (Cons x xs)
  have "(\<Sum>k\<leftarrow>ks. mset (filter (\<lambda>y. key y = k) (x # xs)))
        = (\<Sum>k\<leftarrow>ks. (if key x = k then {#x#} else {#}) + mset (filter (\<lambda>y. key y = k) xs))"
    by (rule arg_cong [where f = sum_list]) (auto intro!: map_cong)
  also have "\<dots> = (\<Sum>k\<leftarrow>ks. if key x = k then {#x#} else {#})
                    + (\<Sum>k\<leftarrow>ks. mset (filter (\<lambda>y. key y = k) xs))"
    by (simp add: sum_list_addf)
  also have "(\<Sum>k\<leftarrow>ks. if key x = k then {#x#} else {#}) = {#x#}"
    using assms(1) Cons.prems by (simp add: sum_list_single_key)
  finally show ?case using Cons by simp
qed

lemma image_mset_sum_list: "image_mset f (sum_list ms) = (\<Sum>m\<leftarrow>ms. image_mset f m)"
  by (induction ms) simp_all

lemma alerts_by_group:
  assumes G: "groupsOf key xs G"
      and F: "\<And>g. g \<in> set G \<Longrightarrow>
                F g = map A (filter (\<lambda>x. key x = fst g) (filter U xs))"
  shows "mset (concat (map F G)) = mset (map A (filter U xs))"
proof -
  from G have d: "distinct (map fst G)" and k: "set (map fst G) = key ` set xs"
    by (simp_all add: groupsOf_def)
  have "map (\<lambda>g. mset (F g)) G
        = map (\<lambda>g. image_mset A (mset (filter (\<lambda>x. key x = fst g) (filter U xs)))) G"
    by (rule map_cong) (simp_all add: F)
  then have "mset (concat (map F G))
        = (\<Sum>g\<leftarrow>G. image_mset A (mset (filter (\<lambda>x. key x = fst g) (filter U xs))))"
    by (simp only: mset_concat map_map comp_def)
  also have "\<dots> = (\<Sum>k\<leftarrow>map fst G. image_mset A (mset (filter (\<lambda>x. key x = k) (filter U xs))))"
    by (simp add: comp_def)
  also have "\<dots> = image_mset A (\<Sum>k\<leftarrow>map fst G. mset (filter (\<lambda>x. key x = k) (filter U xs)))"
    by (simp add: image_mset_sum_list comp_def)
  also have "(\<Sum>k\<leftarrow>map fst G. mset (filter (\<lambda>x. key x = k) (filter U xs))) = mset (filter U xs)"
    by (rule partition_by_keys [OF d]) (use k in auto)
  finally show ?thesis by simp
qed

lemma map_filter_cong:
  "(\<And>x. x \<in> set xs \<Longrightarrow> P x = Q x) \<Longrightarrow>
   (\<And>x. x \<in> set xs \<Longrightarrow> Q x \<Longrightarrow> f x = g x) \<Longrightarrow>
   map f (filter P xs) = map g (filter Q xs)"
  by (induction xs) auto

lemma alertType_mkAlert: "alertType (mkAlert p ty msg e) = ty"
  by (simp add: mkAlert_def)

lemma plateAlerts_alertType:
  "filter (\<lambda>a. alertType a = NoMatchingEntry) (plateAlerts getHours (p, evs))
     = map (mkAlert p NoMatchingEntry ''Vehicle exited without recorded entry'')
         (filter (\<lambda>x. \<not> hasMatchingEntry (filter (\<lambda>e. direction e = Entry) evs) x)
            (filter (\<lambda>e. direction e = Exit \<and> decision e = ''ALERT'') evs))"
  "filter (\<lambda>a. alertType a = AfterHoursExit) (plateAlerts getHours (p, evs))
     = map (mkAlert p AfterHoursExit ''Material movement detected outside working hours'')
         (filter (\<lambda>x. getHours (timestamp_c x) < 6 \<or> getHours (timestamp_c x) \<ge> 20)
            (filter (\<lambda>e. direction e = Exit \<and> decision e = ''ALERT'') evs))"
  by (simp_all add: plateAlerts_def Let_def filter_map comp_def alertType_mkAlert)

lemma plateAlerts_noMatchingEntry:
  assumes "snd g = filter (\<lambda>x. plateNumber x = fst g) events"
  shows "filter (\<lambda>a. alertType a = NoMatchingEntry) (plateAlerts getHours g)
         = map (\<lambda>e. mkAlert (plateNumber e) NoMatchingEntry ''Vehicle exited without recorded entry'' e)
             (filter (\<lambda>x. plateNumber x = fst g) (filter (spec_unmatchedExit events) events))"
proof -
  obtain p evs where g: "g = (p, evs)" by (cases g)
  with assms have evs: "evs = filter (\<lambda>x. plateNumber x = p) events" by simp
  show ?thesis
    unfolding g plateAlerts_alertType evs fst_conv filter_filter
    by (rule map_filter_cong) (auto simp: hasMatchingEntry_def list_ex_iff spec_unmatchedExit_def)
qed

lemma mset_filter_sort_concat:
  "mset (filter P (sort_key f (concat (map F G))))
   = mset (concat (map (\<lambda>g. filter P (F g)) G))"
  by (simp only: filter_sort mset_sort filter_concat map_map comp_def)

lemma plateAlerts_afterHours:
  assumes "snd g = filter (\<lambda>x. plateNumber x = fst g) events"
  shows "filter (\<lambda>a. alertType a = AfterHoursExit) (plateAlerts getHours g)
         = map (\<lambda>e. mkAlert (plateNumber e) AfterHoursExit
                        ''Material movement detected outside working hours'' e)
             (filter (\<lambda>x. plateNumber x = fst g)
                (filter (\<lambda>e. direction e = Exit \<and> decision e = ''ALERT''
                              \<and> (getHours (timestamp_c e) < 6 \<or> getHours (timestamp_c e) \<ge> 20))
                   events))"
proof -
  obtain p evs where g: "g = (p, evs)" by (cases g)
  with assms have evs: "evs = filter (\<lambda>x. plateNumber x = p) events" by simp
  show ?thesis
    unfolding g plateAlerts_alertType evs fst_conv filter_filter
    by (rule map_filter_cong) auto
qed

lemma plateAlerts_plate: "a \<in> set (plateAlerts getHours g) \<Longrightarrow> plateNumber_a a = fst g"
  by (auto simp: plateAlerts_def Let_def mkAlert_def)

lemma identifyTheftAlerts_plate:
  assumes "a \<in> set (identifyTheftAlerts getHours events)"
  shows "\<exists>r \<in> set events. plateNumber_a a = plateNumber r"
proof -
  from assms obtain g where g: "g \<in> set (groupByPlate events)" "a \<in> set (plateAlerts getHours g)"
    by (auto simp: identifyTheftAlerts_def)
  from groupsOf_groupByPlate [of events] g(1) have "fst g \<in> plateNumber ` set events"
    by (auto simp: groupsOf_def)
  with plateAlerts_plate [OF g(2)] show ?thesis by auto
qed

subsection \<open>The vendor map holds ALLOW records only\<close>

lemma allowOnly_vendorPush:
  "allowOnly m \<Longrightarrow> decision event = ''ALLOW'' \<Longrightarrow> allowOnly (vendorPush k event m)"
  by (induction k event m rule: vendorPush.induct) (auto simp: allowOnly_def)

lemma allowOnly_vendorStep: "allowOnly m \<Longrightarrow> allowOnly (vendorStep m event)"
  by (simp add: vendorStep_def allowOnly_vendorPush)

lemma allowOnly_foldl: "allowOnly m \<Longrightarrow> allowOnly (foldl vendorStep m events)"
  by (induction events arbitrary: m) (simp_all add: allowOnly_vendorStep)

lemma allowOnly_vendorMap: "allowOnly (vendorMap events)"
  unfolding vendorMap_def by (rule allowOnly_foldl) (simp add: allowOnly_def)

lemma suspiciousExits_allowOnly:
  assumes "allowOnly m" "vd \<in> set m"
  shows "suspiciousExits (vendorAnalyticsOf ops startOfDay now vd) = 0"
proof -
  from assms have "\<forall>x \<in> set (snd (snd vd)). decision x = ''ALLOW''"
    by (auto simp: allowOnly_def)
  then have "filter (\<lambda>exit. decision exit = ''ALERT'') (snd (snd vd)) = []"
    by (auto simp: filter_empty_conv)
  then show ?thesis
    by (simp add: vendorAnalyticsOf_def Let_def)
qed

section \<open>Claims\<close>

subsection \<open>C1: three ALLOW records of one plate\<close>

text \<open>
  C1: when the ALLOW records of a plate that reach the tracker are exactly three, at
  \<open>t0\<close>, \<open>t0 + 10 min\<close> and \<open>t0 + 3 h\<close>, in any order of arrival and among any other
  records, their directions are Entry, Exit, Entry (the output lists them newest first).
  The plate's final state has \<open>firstSeen\<close> reset to the third timestamp, which only
  strategy 2 does. The descriptions are never read on this path, so the theorem holds
  with or without keywords in them.
\<close>

theorem three_allow_records:
  assumes "mset (filter (tracked p) events) = {#e1, e2, e3#}"
      and "timestamp e2 = timestamp e1 + 10 * 60 * 1000"
      and "timestamp e3 = timestamp e1 + 3 * 60 * 60 * 1000"
  shows "filter (allowedOf p) (transformToConstructionSiteEvents events)
           = [mkEvent e3 Entry, mkEvent e2 Exit, mkEvent e1 Entry]
       \<and> fst (runTracker events) p
           = Some \<lparr> firstSeen = timestamp e3, lastSeen = timestamp e3,
                    entryCount = 2, exitCount = 1 \<rparr>"
proof -
  have "set (filter (tracked p) events) = {e1, e2, e3}"
    using assms(1) by (metis mset_eq_setD set_mset_add_mset_insert set_mset_empty set_mset_mset)
  then have t: "tracked p e1" "tracked p e2" "tracked p e3" by auto
  have s: "filter (tracked p) (sortedEvents events) = [e1, e2, e3]"
    unfolding sortedEvents_def filter_sort
    by (rule sort_three) (use assms in simp_all)
  note l = tracker_local [of "(Map.empty, [])" p "(Map.empty, [])" "sortedEvents events",
      unfolded s run_three [OF t assms(2,3)], simplified]
  from l have m: "fst (runTracker events) p
           = Some \<lparr> firstSeen = timestamp e3, lastSeen = timestamp e3,
                    entryCount = 2, exitCount = 1 \<rparr>"
    by (simp add: runTracker_def)
  from l have "filter (allowedOf p) (snd (runTracker events))
        = filter (allowedOf p) [mkEvent e1 Entry, mkEvent e2 Exit, mkEvent e3 Entry]"
    by (simp add: runTracker_def)
  also have "\<dots> = [mkEvent e1 Entry, mkEvent e2 Exit, mkEvent e3 Entry]"
    using t by (simp add: allowedOf_mkEvent tracked_def)
  finally have f: "filter (allowedOf p) (snd (runTracker events))
        = [mkEvent e1 Entry, mkEvent e2 Exit, mkEvent e3 Entry]" .
  have "filter (allowedOf p) (transformToConstructionSiteEvents events)
        = sort_key (\<lambda>r. - timestamp_c r) [mkEvent e1 Entry, mkEvent e2 Exit, mkEvent e3 Entry]"
    unfolding transformToConstructionSiteEvents_def filter_sort f ..
  also have "\<dots> = [mkEvent e3 Entry, mkEvent e2 Exit, mkEvent e1 Entry]"
    using assms(2,3) by (simp add: mkEvent_def)
  finally show ?thesis using m by simp
qed

theorem three_allow_records_witness:
  "map direction (filter (allowedOf ''KA01AB1234'')
     (transformToConstructionSiteEvents
       [\<lparr> id_ev = 3, event_type = ''ALLOW'', description = None, rule_name = None,
          timestamp = 10800000, plate_text = Some ''KA01AB1234'' \<rparr>,
        \<lparr> id_ev = 4, event_type = ''ALLOW'', description = None, rule_name = None,
          timestamp = 300000, plate_text = Some ''DL05XY0001'' \<rparr>,
        \<lparr> id_ev = 1, event_type = ''ALLOW'', description = None, rule_name = None,
          timestamp = 0, plate_text = Some ''KA01AB1234'' \<rparr>,
        \<lparr> id_ev = 5, event_type = ''ALERT'', description = None, rule_name = None,
          timestamp = 400000, plate_text = Some ''KA01AB1234'' \<rparr>,
        \<lparr> id_ev = 2, event_type = ''ALLOW'', description = None, rule_name = None,
          timestamp = 600000, plate_text = Some ''KA01AB1234'' \<rparr>]))
   = [Entry, Exit, Entry]"
proof -
  let ?e1 = "\<lparr> id_ev = 1, event_type = ''ALLOW'', description = None, rule_name = None,
          timestamp = 0, plate_text = Some ''KA01AB1234'' \<rparr>"
  let ?e2 = "\<lparr> id_ev = 2, event_type = ''ALLOW'', description = None, rule_name = None,
          timestamp = 600000, plate_text = Some ''KA01AB1234'' \<rparr>"
  let ?e3 = "\<lparr> id_ev = 3, event_type = ''ALLOW'', description = None, rule_name = None,
          timestamp = 10800000, plate_text = Some ''KA01AB1234'' \<rparr>"
  let ?o = "\<lparr> id_ev = 4, event_type = ''ALLOW'', description = None, rule_name = None,
          timestamp = 300000, plate_text = Some ''DL05XY0001'' \<rparr>"
  let ?a = "\<lparr> id_ev = 5, event_type = ''ALERT'', description = None, rule_name = None,
          timestamp = 400000, plate_text = Some ''KA01AB1234'' \<rparr>"
  have f: "filter (tracked ''KA01AB1234'') [?e3, ?o, ?e1, ?a, ?e2] = [?e3, ?e1, ?e2]"
    by code_simp
  have m: "mset (filter (tracked ''KA01AB1234'') [?e3, ?o, ?e1, ?a, ?e2]) = {#?e1, ?e2, ?e3#}"
    unfolding f by simp
  have t2: "timestamp ?e2 = timestamp ?e1 + 10 * 60 * 1000" by simp
  have t3: "timestamp ?e3 = timestamp ?e1 + 3 * 60 * 60 * 1000" by simp
  from three_allow_records [OF m t2 t3] show ?thesis
    by (simp add: mkEvent_def)
qed

subsection \<open>C2: direction of a non-ALLOW record\<close>

text \<open>
  C2, as stated, lets the description's keywords decide the direction of every non-ALLOW
  record. The service reads the keywords of ALERT events only: a LOG_ONLY record whose
  description contains \<open>exit\<close> is assigned Entry.
\<close>

theorem logOnly_exit_keyword_is_Entry:
  "map direction (transformToConstructionSiteEvents
      [\<lparr> id_ev = 1, event_type = ''LOG_ONLY'', description = Some ''vehicle exit'',
         rule_name = None, timestamp = 0, plate_text = Some ''MH12AB1234'' \<rparr>])
   = [Entry]
   \<and> hasExitKeyword (toLowerCase ''vehicle exit'')"
  by code_simp

text \<open>
  C2, amended: a classified record whose decision is not ALLOW has direction Exit or
  Entry by its description's keywords (exit keywords first, then entry keywords, Exit
  when there is none) when its decision is ALERT, and direction Entry for every other
  decision, LOG_ONLY included, whatever its description says.
\<close>

theorem nonAllow_direction:
  assumes "r \<in> set (transformToConstructionSiteEvents events)"
      and "decision r \<noteq> ''ALLOW''"
  shows "direction r =
     (if decision r = ''ALERT'' then
        (if hasExitKeyword (toLowerCase (orEmpty (description_c r))) then Exit
         else if hasEntryKeyword (toLowerCase (orEmpty (description_c r))) then Entry
         else Exit)
      else Entry)"
proof -
  from transform_result [OF assms(1)] obtain e where
    e: "if event_type e = ''ALLOW'' then (\<exists>d. r = mkEvent e d)
        else r = mkEvent e (otherDirection e)"
    by blast
  from e assms(2) have "event_type e \<noteq> ''ALLOW''"
    by (auto simp: mkEvent_simps split: if_splits)
  with e have "r = mkEvent e (otherDirection e)" by simp
  then show ?thesis
    by (simp add: mkEvent_simps otherDirection_def)
qed

theorem nonAllow_direction_witness:
  "direction (mkEvent \<lparr> id_ev = 7, event_type = ''ALERT'', description = Some ''Arrival at gate 2'',
         rule_name = None, timestamp = 5, plate_text = Some ''DL3C'' \<rparr> Entry) = Entry
   \<and> decision (mkEvent \<lparr> id_ev = 7, event_type = ''ALERT'', description = Some ''Arrival at gate 2'',
         rule_name = None, timestamp = 5, plate_text = Some ''DL3C'' \<rparr> Entry) = ''ALERT''"
proof -
  let ?e = "\<lparr> id_ev = 7, event_type = ''ALERT'', description = Some ''Arrival at gate 2'',
         rule_name = None, timestamp = 5, plate_text = Some ''DL3C'' \<rparr>"
  have m: "transformToConstructionSiteEvents [?e] = [mkEvent ?e Entry]" by code_simp
  have k1: "\<not> hasExitKeyword (toLowerCase (orEmpty (description_c (mkEvent ?e Entry))))"
    by code_simp
  have k2: "hasEntryKeyword (toLowerCase (orEmpty (description_c (mkEvent ?e Entry))))"
    by code_simp
  have d: "decision (mkEvent ?e Entry) = ''ALERT''" by (simp add: mkEvent_def)
  have i: "mkEvent ?e Entry \<in> set (transformToConstructionSiteEvents [?e])"
    unfolding m by simp
  have n: "decision (mkEvent ?e Entry) \<noteq> ''ALLOW''" unfolding d by simp
  from nonAllow_direction [OF i n] k1 k2 d show ?thesis
    by simp
qed

subsection \<open>C3: duration matching\<close>

text \<open>
  C3: each entry of a vendor group is to be matched with the earliest exit of the group
  later than it and less than 24 hours after it. The service takes the first such exit in
  array order, and the array it is handed is sorted newest first. For one truck with two
  visits of ten minutes, three hours apart, the theorem evaluates the service: both
  entries are matched with the last exit, so the durations are 10 and 190 minutes, where
  the earliest exits give 10 and 10. The average is the sum of the two quotients, from 0,
  divided by 2, in the service's numbers; in doubles every step is exact and the result
  is 100.
\<close>

theorem two_visits_matched_with_last_exit:
  "map (\<lambda>g. map (\<lambda>entry. (timestamp_c entry,
                           map_option timestamp_c (matchingExit (snd (snd g)) entry),
                           map_option timestamp_c (spec_earliestExit (snd (snd g)) entry)))
                 (fst (snd g)))
     (vendorMap (transformToConstructionSiteEvents
       [\<lparr> id_ev = 1, event_type = ''ALLOW'', description = None, rule_name = None,
          timestamp = 0, plate_text = Some ''MH12AB1234'' \<rparr>,
        \<lparr> id_ev = 2, event_type = ''ALLOW'', description = None, rule_name = None,
          timestamp = 600000, plate_text = Some ''MH12AB1234'' \<rparr>,
        \<lparr> id_ev = 3, event_type = ''ALLOW'', description = None, rule_name = None,
          timestamp = 10800000, plate_text = Some ''MH12AB1234'' \<rparr>,
        \<lparr> id_ev = 4, event_type = ''ALLOW'', description = None, rule_name = None,
          timestamp = 11400000, plate_text = Some ''MH12AB1234'' \<rparr>]))
   = [[(10800000, Some 11400000, Some 11400000), (0, Some 11400000, Some 600000)]]
   \<and> map averageDuration (calculateVendorAnalytics ops utcStartOfDay 0
     (transformToConstructionSiteEvents
       [\<lparr> id_ev = 1, event_type = ''ALLOW'', description = None, rule_name = None,
          timestamp = 0, plate_text = Some ''MH12AB1234'' \<rparr>,
        \<lparr> id_ev = 2, event_type = ''ALLOW'', description = None, rule_name = None,
          timestamp = 600000, plate_text = Some ''MH12AB1234'' \<rparr>,
        \<lparr> id_ev = 3, event_type = ''ALLOW'', description = None, rule_name = None,
          timestamp = 10800000, plate_text = Some ''MH12AB1234'' \<rparr>,
        \<lparr> id_ev = 4, event_type = ''ALLOW'', description = None, rule_name = None,
          timestamp = 11400000, plate_text = Some ''MH12AB1234'' \<rparr>]))
   = [Some (numDiv ops
              (numAdd ops
                 (numAdd ops (numOf ops 0) (numDiv ops (numOf ops 600000) (numOf ops 60000)))
                 (numDiv ops (numOf ops 11400000) (numOf ops 60000)))
              (numOf ops 2))]"
proof -
  let ?evs = "[\<lparr> id_ev = 1, event_type = ''ALLOW'', description = None, rule_name = None,
          timestamp = 0, plate_text = Some ''MH12AB1234'' \<rparr>,
        \<lparr> id_ev = 2, event_type = ''ALLOW'', description = None, rule_name = None,
          timestamp = 600000, plate_text = Some ''MH12AB1234'' \<rparr>,
        \<lparr> id_ev = 3, event_type = ''ALLOW'', description = None, rule_name = None,
          timestamp = 10800000, plate_text = Some ''MH12AB1234'' \<rparr>,
        \<lparr> id_ev = 4, event_type = ''ALLOW'', description = None, rule_name = None,
          timestamp = 11400000, plate_text = Some ''MH12AB1234'' \<rparr>]"
  let ?rec = "\<lambda>i d t. \<lparr> id_c = i, plateNumber = ''MH12AB1234'', vehicleCategory = MaterialTruck,
          direction = d, gateName = ''Main Gate'', timestamp_c = t, decision = ''ALLOW'',
          eventType = ''ALLOW'', description_c = None, ruleName = None \<rparr>"
  have v: "vendorMap (transformToConstructionSiteEvents ?evs)
           = [(''Maharashtra'',
               ([?rec 3 Entry 10800000, ?rec 1 Entry 0],
                [?rec 4 Exit 11400000, ?rec 2 Exit 600000]))]"
    by code_simp
  have 1: "map (\<lambda>g. map (\<lambda>entry. (timestamp_c entry,
                           map_option timestamp_c (matchingExit (snd (snd g)) entry),
                           map_option timestamp_c (spec_earliestExit (snd (snd g)) entry)))
                 (fst (snd g)))
     (vendorMap (transformToConstructionSiteEvents ?evs))
   = [[(10800000, Some 11400000, Some 11400000), (0, Some 11400000, Some 600000)]]"
    unfolding v by (simp add: matchingExit_def spec_earliestExit_def dayMs_def)
  have 2: "map averageDuration (calculateVendorAnalytics ops utcStartOfDay 0
     (transformToConstructionSiteEvents ?evs))
   = [Some (numDiv ops
              (numAdd ops
                 (numAdd ops (numOf ops 0) (numDiv ops (numOf ops 600000) (numOf ops 60000)))
                 (numDiv ops (numOf ops 11400000) (numOf ops 60000)))
              (numOf ops 2))]"
    unfolding calculateVendorAnalytics_def v
    by (simp add: vendorAnalyticsOf_def averageOf_def durationsOf_def matchingExit_def dayMs_def)
  from 1 2 show ?thesis by (rule conjI)
qed

subsection \<open>C4: vehicle category\<close>

text \<open>
  C4, as stated, gives the Machinery keywords priority over the Material Truck keywords.
  \<open>determineVehicleCategory\<close> tests \<open>truck\<close>, \<open>material\<close> and \<open>delivery\<close> first:
  the description \<open>excavator delivery\<close> is classified Material Truck, not Machinery.
\<close>

theorem vehicleCategory_excavator_delivery:
  "map vehicleCategory (transformToConstructionSiteEvents
      [\<lparr> id_ev = 1, event_type = ''ALLOW'', description = Some ''excavator delivery'',
         rule_name = None, timestamp = 0, plate_text = Some ''MH12AB1234'' \<rparr>])
   = [MaterialTruck]
   \<and> determineVehicleCategory ''MH12AB1234'' (Some ''excavator delivery'') \<noteq> Machinery"
  by code_simp

text \<open>
  C4, amended: every classified record's \<open>vehicleCategory\<close> is decided by a
  case-insensitive keyword scan of its description, in the priority order
  truck/material/delivery (Material Truck), then machinery/excavator/crane (Machinery),
  then staff/employee/personnel (Staff), and Material Truck when no keyword matches.
\<close>

theorem vehicleCategory_priority:
  assumes "r \<in> set (transformToConstructionSiteEvents events)"
  shows "vehicleCategory r =
     (let desc = toLowerCase (orEmpty (description_c r)) in
      if includesStr desc ''truck'' \<or> includesStr desc ''material'' \<or> includesStr desc ''delivery''
        then MaterialTruck
      else if includesStr desc ''machinery'' \<or> includesStr desc ''excavator'' \<or> includesStr desc ''crane''
        then Machinery
      else if includesStr desc ''staff'' \<or> includesStr desc ''employee'' \<or> includesStr desc ''personnel''
        then Staff
      else MaterialTruck)"
proof -
  from transform_result [OF assms] obtain e d where "r = mkEvent e d"
    by (auto split: if_splits)
  then show ?thesis
    by (simp add: mkEvent_simps determineVehicleCategory_def)
qed

theorem vehicleCategory_priority_witness:
  "vehicleCategory (mkEvent \<lparr> id_ev = 1, event_type = ''ALERT'', description = Some ''Crane'',
         rule_name = None, timestamp = 0, plate_text = Some ''KA01'' \<rparr> Exit) = Machinery"
proof -
  let ?e = "\<lparr> id_ev = 1, event_type = ''ALERT'', description = Some ''Crane'',
         rule_name = None, timestamp = 0, plate_text = Some ''KA01'' \<rparr>"
  have m: "transformToConstructionSiteEvents [?e] = [mkEvent ?e Exit]" by code_simp
  have d: "toLowerCase (orEmpty (description_c (mkEvent ?e Exit))) = ''crane''" by code_simp
  have "mkEvent ?e Exit \<in> set (transformToConstructionSiteEvents [?e])"
    unfolding m by simp
  from vehicleCategory_priority [OF this] show ?thesis
    unfolding d by simp
qed

subsection \<open>C5: suspicious exits\<close>

text \<open>
  C5: every element of the vendor analytics has \<open>suspiciousExits = 0\<close>, for every list
  of classified records: the groups hold ALLOW records only, and the count is of the
  group's exits whose decision is ALERT.
\<close>

theorem suspiciousExits_zero:
  "\<forall>va \<in> set (calculateVendorAnalytics ops startOfDay now events). suspiciousExits va = 0"
  using suspiciousExits_allowOnly [OF allowOnly_vendorMap]
  by (auto simp: calculateVendorAnalytics_def)

theorem suspiciousExits_zero_witness:
  "\<forall>ops. map suspiciousExits (calculateVendorAnalytics ops utcStartOfDay 0
     (transformToConstructionSiteEvents
       [\<lparr> id_ev = 1, event_type = ''ALLOW'', description = None, rule_name = None,
          timestamp = 0, plate_text = Some ''MH12AB1234'' \<rparr>,
        \<lparr> id_ev = 2, event_type = ''ALERT'', description = Some ''leaving'', rule_name = None,
          timestamp = 60000, plate_text = Some ''MH12AB1234'' \<rparr>,
        \<lparr> id_ev = 3, event_type = ''ALLOW'', description = None, rule_name = None,
          timestamp = 120000, plate_text = Some ''MH12AB1234'' \<rparr>])) = [0]"
proof
  fix ops :: "'n numberOps"
  let ?evs = "[\<lparr> id_ev = 1, event_type = ''ALLOW'', description = None, rule_name = None,
          timestamp = 0, plate_text = Some ''MH12AB1234'' \<rparr>,
        \<lparr> id_ev = 2, event_type = ''ALERT'', description = Some ''leaving'', rule_name = None,
          timestamp = 60000, plate_text = Some ''MH12AB1234'' \<rparr>,
        \<lparr> id_ev = 3, event_type = ''ALLOW'', description = None, rule_name = None,
          timestamp = 120000, plate_text = Some ''MH12AB1234'' \<rparr>]"
  let ?out = "calculateVendorAnalytics ops utcStartOfDay 0 (transformToConstructionSiteEvents ?evs)"
  have "length (vendorMap (transformToConstructionSiteEvents ?evs)) = 1" by code_simp
  then have "length ?out = 1" by (simp add: calculateVendorAnalytics_def)
  then obtain va where o: "?out = [va]"
    by (cases ?out) auto
  from suspiciousExits_zero [of ops utcStartOfDay 0 "transformToConstructionSiteEvents ?evs"]
  show "map suspiciousExits ?out = [0]" unfolding o by simp
qed

subsection \<open>C6: exits without a matching entry\<close>

text \<open>
  C6: the No Matching Entry alerts, with the message
  \<open>Vehicle exited without recorded entry\<close>, are one for each classified record that is
  an Exit with decision ALERT and has no Entry record of the same plate, of any
  decision, earlier than it and less than 24 hours before it, and no others; an Exit
  whose decision is not ALERT never produces one. The equation is between multisets:
  the service sorts the alerts by timestamp.
\<close>

theorem noMatchingEntry_alerts:
  "mset (filter (\<lambda>a. alertType a = NoMatchingEntry) (identifyTheftAlerts getHours events))
   = mset (map (\<lambda>e. mkAlert (plateNumber e) NoMatchingEntry
                        ''Vehicle exited without recorded entry'' e)
             (filter (spec_unmatchedExit events) events))"
proof -
  let ?nme = "\<lambda>a. alertType a = NoMatchingEntry"
  have "mset (filter ?nme (identifyTheftAlerts getHours events))
        = mset (concat (map (\<lambda>g. filter ?nme (plateAlerts getHours g)) (groupByPlate events)))"
    unfolding identifyTheftAlerts_def by (rule mset_filter_sort_concat)
  also have "\<dots> = mset (map (\<lambda>e. mkAlert (plateNumber e) NoMatchingEntry
                        ''Vehicle exited without recorded entry'' e)
             (filter (spec_unmatchedExit events) events))"
  proof (rule alerts_by_group [OF groupsOf_groupByPlate])
    fix g assume "g \<in> set (groupByPlate events)"
    with groupsOf_groupByPlate [of events]
    have "snd g = filter (\<lambda>x. plateNumber x = fst g) events"
      by (simp add: groupsOf_def)
    then show "filter ?nme (plateAlerts getHours g)
         = map (\<lambda>e. mkAlert (plateNumber e) NoMatchingEntry ''Vehicle exited without recorded entry'' e)
             (filter (\<lambda>x. plateNumber x = fst g) (filter (spec_unmatchedExit events) events))"
      by (rule plateAlerts_noMatchingEntry)
  qed
  finally show ?thesis .
qed

theorem noMatchingEntry_alerts_witness:
  "mset (filter (\<lambda>a. alertType a = NoMatchingEntry)
     (identifyTheftAlerts utcHours
       [\<lparr> id_c = 2, plateNumber = ''MH12'', vehicleCategory = MaterialTruck, direction = Exit,
          gateName = ''Main Gate'', timestamp_c = 50000, decision = ''ALERT'',
          eventType = ''ALERT'', description_c = Some ''leaving'', ruleName = None \<rparr>,
        \<lparr> id_c = 1, plateNumber = ''MH12'', vehicleCategory = MaterialTruck, direction = Exit,
          gateName = ''Main Gate'', timestamp_c = 40000, decision = ''LOG_ONLY'',
          eventType = ''LOG_ONLY'', description_c = None, ruleName = None \<rparr>]))
   = {# \<lparr> id_a = 2, plateNumber_a = ''MH12'', alertType = NoMatchingEntry,
          message = ''Vehicle exited without recorded entry'', timestamp_a = 50000,
          description_a = Some ''leaving'' \<rparr> #}"
proof -
  let ?x = "\<lparr> id_c = 2, plateNumber = ''MH12'', vehicleCategory = MaterialTruck, direction = Exit,
          gateName = ''Main Gate'', timestamp_c = 50000, decision = ''ALERT'',
          eventType = ''ALERT'', description_c = Some ''leaving'', ruleName = None \<rparr>"
  let ?l = "\<lparr> id_c = 1, plateNumber = ''MH12'', vehicleCategory = MaterialTruck, direction = Exit,
          gateName = ''Main Gate'', timestamp_c = 40000, decision = ''LOG_ONLY'',
          eventType = ''LOG_ONLY'', description_c = None, ruleName = None \<rparr>"
  have f: "filter (spec_unmatchedExit [?x, ?l]) [?x, ?l] = [?x]"
    by (simp add: spec_unmatchedExit_def)
  from noMatchingEntry_alerts [of utcHours "[?x, ?l]"] show ?thesis
    unfolding f by (simp add: mkAlert_def)
qed

subsection \<open>C7: dropped records\<close>

text \<open>
  C7: a raw record whose plate is the sentinel \<open>UNKNOWN\<close>, whose rule name is
  \<open>invalid_plate_format\<close> or whose gate label is \<open>Gate invalid_plate_format\<close> appears
  in none of the three outputs. The classified records, the theft alerts and the vendor
  analytics are those of the input with every such record removed, and no classified
  record carries the sentinel plate, the marker rule name or the placeholder gate label.
\<close>

theorem dropped_records_absent:
  "transformToConstructionSiteEvents events
     = transformToConstructionSiteEvents (filter (\<lambda>e. \<not> spec_dropped e) events)
   \<and> identifyTheftAlerts getHours (transformToConstructionSiteEvents events)
     = identifyTheftAlerts getHours
         (transformToConstructionSiteEvents (filter (\<lambda>e. \<not> spec_dropped e) events))
   \<and> calculateVendorAnalytics ops startOfDay now (transformToConstructionSiteEvents events)
     = calculateVendorAnalytics ops startOfDay now
         (transformToConstructionSiteEvents (filter (\<lambda>e. \<not> spec_dropped e) events))
   \<and> (\<forall>r \<in> set (transformToConstructionSiteEvents events).
        plateNumber r \<noteq> ''UNKNOWN'' \<and> ruleName r \<noteq> Some ''invalid_plate_format''
        \<and> gateName r \<noteq> ''Gate invalid_plate_format'')
   \<and> (\<forall>a \<in> set (identifyTheftAlerts getHours (transformToConstructionSiteEvents events)).
        plateNumber_a a \<noteq> ''UNKNOWN'')"
proof -
  have "transformToConstructionSiteEvents (filter (\<lambda>e. \<not> spec_dropped e) events)
        = transformToConstructionSiteEvents events"
    by (rule transform_filter) (rule spec_dropped_skipped)
  moreover have "plateNumber_a a \<noteq> ''UNKNOWN''"
    if "a \<in> set (identifyTheftAlerts getHours (transformToConstructionSiteEvents events))" for a
  proof -
    from identifyTheftAlerts_plate [OF that] obtain r where
      r: "r \<in> set (transformToConstructionSiteEvents events)" "plateNumber_a a = plateNumber r"
      by blast
    from transform_kept [OF r(1)] r(2) show ?thesis by simp
  qed
  ultimately show ?thesis
    using transform_kept by simp
qed

theorem dropped_records_absent_witness:
  "transformToConstructionSiteEvents
     [\<lparr> id_ev = 1, event_type = ''ALLOW'', description = None, rule_name = None,
        timestamp = 10, plate_text = Some ''UNKNOWN'' \<rparr>,
      \<lparr> id_ev = 2, event_type = ''ALLOW'', description = None, rule_name = None,
        timestamp = 20, plate_text = Some ''MH12AB1234'' \<rparr>,
      \<lparr> id_ev = 3, event_type = ''ALERT'', description = None,
        rule_name = Some ''invalid_plate_format'', timestamp = 30,
        plate_text = Some ''MH12AB1234'' \<rparr>]
   = transformToConstructionSiteEvents
     [\<lparr> id_ev = 2, event_type = ''ALLOW'', description = None, rule_name = None,
        timestamp = 20, plate_text = Some ''MH12AB1234'' \<rparr>]"
proof -
  let ?u = "\<lparr> id_ev = 1, event_type = ''ALLOW'', description = None, rule_name = None,
        timestamp = 10, plate_text = Some ''UNKNOWN'' \<rparr>"
  let ?k = "\<lparr> id_ev = 2, event_type = ''ALLOW'', description = None, rule_name = None,
        timestamp = 20, plate_text = Some ''MH12AB1234'' \<rparr>"
  let ?i = "\<lparr> id_ev = 3, event_type = ''ALERT'', description = None,
        rule_name = Some ''invalid_plate_format'', timestamp = 30,
        plate_text = Some ''MH12AB1234'' \<rparr>"
  have f: "filter (\<lambda>e. \<not> spec_dropped e) [?u, ?k, ?i] = [?k]" by code_simp
  from dropped_records_absent [of "[?u, ?k, ?i]", THEN conjunct1]
  show ?thesis unfolding f .
qed

subsection \<open>C8: exits outside working hours\<close>

text \<open>
  C8: the After Hours Exit alerts, with the message
  \<open>Material movement detected outside working hours\<close>, are one for each classified
  record that is an Exit with decision ALERT and whose local hour of the day is below 6
  or at least 20, and no others. An ALERT exit at 22:00 yields the alert; the same record
  at 14:00 does not.
\<close>

theorem afterHoursExit_alerts:
  "mset (filter (\<lambda>a. alertType a = AfterHoursExit) (identifyTheftAlerts getHours events))
   = mset (map (\<lambda>e. mkAlert (plateNumber e) AfterHoursExit
                        ''Material movement detected outside working hours'' e)
             (filter (\<lambda>e. direction e = Exit \<and> decision e = ''ALERT''
                           \<and> (getHours (timestamp_c e) < 6 \<or> getHours (timestamp_c e) \<ge> 20))
                events))"
proof -
  let ?ah = "\<lambda>a. alertType a = AfterHoursExit"
  let ?late = "\<lambda>e. direction e = Exit \<and> decision e = ''ALERT''
                    \<and> (getHours (timestamp_c e) < 6 \<or> getHours (timestamp_c e) \<ge> 20)"
  have "mset (filter ?ah (identifyTheftAlerts getHours events))
        = mset (concat (map (\<lambda>g. filter ?ah (plateAlerts getHours g)) (groupByPlate events)))"
    unfolding identifyTheftAlerts_def by (rule mset_filter_sort_concat)
  also have "\<dots> = mset (map (\<lambda>e. mkAlert (plateNumber e) AfterHoursExit
                        ''Material movement detected outside working hours'' e)
             (filter ?late events))"
  proof (rule alerts_by_group [OF groupsOf_groupByPlate])
    fix g assume "g \<in> set (groupByPlate events)"
    with groupsOf_groupByPlate [of events]
    have "snd g = filter (\<lambda>x. plateNumber x = fst g) events"
      by (simp add: groupsOf_def)
    then show "filter ?ah (plateAlerts getHours g)
         = map (\<lambda>e. mkAlert (plateNumber e) AfterHoursExit
                        ''Material movement detected outside working hours'' e)
             (filter (\<lambda>x. plateNumber x = fst g) (filter ?late events))"
      by (rule plateAlerts_afterHours)
  qed
  finally show ?thesis .
qed

theorem afterHoursExit_alerts_witness:
  "mset (filter (\<lambda>a. alertType a = AfterHoursExit)
     (identifyTheftAlerts utcHours
       [\<lparr> id_c = 2, plateNumber = ''MH12'', vehicleCategory = MaterialTruck, direction = Exit,
          gateName = ''Main Gate'', timestamp_c = 79200000, decision = ''ALERT'',
          eventType = ''ALERT'', description_c = None, ruleName = None \<rparr>,
        \<lparr> id_c = 2, plateNumber = ''MH12'', vehicleCategory = MaterialTruck, direction = Exit,
          gateName = ''Main Gate'', timestamp_c = 50400000, decision = ''ALERT'',
          eventType = ''ALERT'', description_c = None, ruleName = None \<rparr>]))
   = {# \<lparr> id_a = 2, plateNumber_a = ''MH12'', alertType = AfterHoursExit,
          message = ''Material movement detected outside working hours'',
          timestamp_a = 79200000, description_a = None \<rparr> #}"
proof -
  let ?n = "\<lparr> id_c = 2, plateNumber = ''MH12'', vehicleCategory = MaterialTruck, direction = Exit,
          gateName = ''Main Gate'', timestamp_c = 79200000, decision = ''ALERT'',
          eventType = ''ALERT'', description_c = None, ruleName = None \<rparr>"
  let ?d = "\<lparr> id_c = 2, plateNumber = ''MH12'', vehicleCategory = MaterialTruck, direction = Exit,
          gateName = ''Main Gate'', timestamp_c = 50400000, decision = ''ALERT'',
          eventType = ''ALERT'', description_c = None, ruleName = None \<rparr>"
  have h: "utcHours 79200000 = 22" "utcHours 50400000 = 14"
    by (simp_all add: utcHours_def)
  from afterHoursExit_alerts [of utcHours "[?n, ?d]"] show ?thesis
    by (simp add: mkAlert_def h)
qed

subsection \<open>C9: what a step does to the session states\<close>

text \<open>
  C9: processing a record whose decision is not ALLOW leaves the whole session map as it
  was, and processing an ALLOW record that reaches the tracker leaves its plate with a
  state whose \<open>lastSeen\<close> is the record's timestamp, whichever strategy chose the
  direction.
\<close>

theorem session_state_frame:
  "(event_type e \<noteq> ''ALLOW'' \<longrightarrow> fst (processEvent st e) = fst st)
   \<and> (event_type e = ''ALLOW'' \<and> \<not> skipped e \<longrightarrow>
        (\<exists>vs. fst (processEvent st e) (plateOf e) = Some vs \<and> lastSeen vs = timestamp e))"
  by (auto simp: processEvent_def Let_def split: prod.splits)

theorem session_state_frame_witness:
  "fst (processEvent (Map.empty, [])
     \<lparr> id_ev = 1, event_type = ''LOG_ONLY'', description = None, rule_name = None,
        timestamp = 10, plate_text = Some ''KA05'' \<rparr>) = Map.empty
   \<and> (\<exists>vs. fst (processEvent (Map.empty, [])
          \<lparr> id_ev = 2, event_type = ''ALLOW'', description = None, rule_name = None,
             timestamp = 20, plate_text = Some ''KA05'' \<rparr>) ''KA05'' = Some vs
        \<and> lastSeen vs = 20)"
proof -
  let ?l = "\<lparr> id_ev = 1, event_type = ''LOG_ONLY'', description = None, rule_name = None,
        timestamp = 10, plate_text = Some ''KA05'' \<rparr>"
  let ?a = "\<lparr> id_ev = 2, event_type = ''ALLOW'', description = None, rule_name = None,
             timestamp = 20, plate_text = Some ''KA05'' \<rparr>"
  have s: "\<not> skipped ?a" by code_simp
  have p: "plateOf ?a = ''KA05''" by code_simp
  from session_state_frame [of ?l "(Map.empty, [])"]
       session_state_frame [of ?a "(Map.empty, [])"] s p
  show ?thesis by simp
qed

subsection \<open>C10: records without a plate\<close>

text \<open>
  C10: a raw record whose \<open>plate_text\<close> is absent, null or the empty string is given the
  sentinel plate and skipped. The loop body leaves the session map and the result as they
  were, and the classified records, the theft alerts and the vendor analytics of an input
  holding the record are those of the input without it.
\<close>

theorem missing_plate_dropped:
  assumes "plate_text e = None \<or> plate_text e = Some []"
  shows "plateOf e = ''UNKNOWN''
       \<and> processEvent st e = st
       \<and> transformToConstructionSiteEvents (xs @ e # ys)
           = transformToConstructionSiteEvents (xs @ ys)
       \<and> identifyTheftAlerts getHours (transformToConstructionSiteEvents (xs @ e # ys))
           = identifyTheftAlerts getHours (transformToConstructionSiteEvents (xs @ ys))
       \<and> calculateVendorAnalytics ops startOfDay now (transformToConstructionSiteEvents (xs @ e # ys))
           = calculateVendorAnalytics ops startOfDay now (transformToConstructionSiteEvents (xs @ ys))"
proof -
  from assms have p: "plateOf e = ''UNKNOWN''"
    by (auto simp: plateOf_def truthy_def)
  then have s: "skipped e" by (simp add: skipped_def)
  show ?thesis
    using p processEvent_skipped [OF s] transform_remove1 [OF s] by simp
qed

theorem missing_plate_dropped_witness:
  "processEvent (Map.empty, [])
     \<lparr> id_ev = 1, event_type = ''ALLOW'', description = None, rule_name = None,
        timestamp = 10, plate_text = Some [] \<rparr> = (Map.empty, [])
   \<and> transformToConstructionSiteEvents
     [\<lparr> id_ev = 1, event_type = ''ALLOW'', description = None, rule_name = None,
        timestamp = 10, plate_text = Some [] \<rparr>] = transformToConstructionSiteEvents []"
proof -
  let ?e = "\<lparr> id_ev = 1, event_type = ''ALLOW'', description = None, rule_name = None,
        timestamp = 10, plate_text = Some [] \<rparr>"
  have h: "plate_text ?e = None \<or> plate_text ?e = Some []" by simp
  note m = missing_plate_dropped [OF h, of "(Map.empty, [])" "[]" "[]"]
  from m [THEN conjunct2, THEN conjunct1] m [THEN conjunct2, THEN conjunct2, THEN conjunct1]
  show ?thesis by simp
qed

end
